theory Spec2Isabelle
  imports Main "HOL-Library.Finite_Map"
begin

section \<open>Python primitives used by the sources\<close>

text \<open>
  A source text and every string of the program is a list of characters whose code points
  are below 256. On that range the only decimal digits are \<open>0\<close> to \<open>9\<close>, and the
  characters for which \<open>str.isspace\<close> holds are the codes 9 to 13, 28 to 32, 133 and 160.
\<close>

definition py_isspace :: "char \<Rightarrow> bool" where
  "py_isspace c = ((of_char c :: nat) \<in> {9, 10, 11, 12, 13, 28, 29, 30, 31, 32, 133, 160})"

definition py_strip :: "string \<Rightarrow> string" where
  "py_strip s = rev (dropWhile py_isspace (rev (dropWhile py_isspace s)))"

text \<open>\<open>str.split()\<close> without argument: the maximal runs of non-whitespace characters.
  The first argument is the word being collected.\<close>

fun split_words :: "string \<Rightarrow> string \<Rightarrow> string list" where
  "split_words w [] = (if w = [] then [] else [w])"
| "split_words w (c # cs) =
     (if py_isspace c then (if w = [] then split_words [] cs else w # split_words [] cs)
      else split_words (w @ [c]) cs)"

definition py_split :: "string \<Rightarrow> string list" where
  "py_split s = split_words [] s"

definition startswith :: "string \<Rightarrow> string \<Rightarrow> bool" where
  "startswith s p = (take (length p) s = p)"

definition is_digit :: "char \<Rightarrow> bool" where
  "is_digit c = (c \<in> set ''0123456789'')"

definition digit_val :: "char \<Rightarrow> nat" where
  "digit_val c = of_char c - 48"

text \<open>\<open>int(s)\<close> on a string without whitespace: an optional sign, then decimal digits in
  which single underscores may stand between two digits. \<open>None\<close> is \<open>ValueError\<close>.
  (The interpreter's configurable limit on the number of digits is not modelled.)\<close>

fun py_digits :: "nat \<Rightarrow> string \<Rightarrow> nat option" where
  "py_digits acc [] = Some acc"
| "py_digits acc (c # cs) =
     (if is_digit c then py_digits (10 * acc + digit_val c) cs
      else if c = CHR ''_'' then
        (case cs of
           [] \<Rightarrow> None
         | d # ds \<Rightarrow> if is_digit d then py_digits (10 * acc + digit_val d) ds else None)
      else None)"

definition py_unsigned :: "string \<Rightarrow> nat option" where
  "py_unsigned s =
     (case s of [] \<Rightarrow> None | c # cs \<Rightarrow> if is_digit c then py_digits (digit_val c) cs else None)"

definition py_int :: "string \<Rightarrow> int option" where
  "py_int s =
     (case s of
        [] \<Rightarrow> None
      | c # cs \<Rightarrow>
          if c = CHR ''-'' then map_option (\<lambda>n. - int n) (py_unsigned cs)
          else if c = CHR ''+'' then map_option int (py_unsigned cs)
          else map_option int (py_unsigned s))"

text \<open>\<open>str(n)\<close> for an integer: base 10, no leading zero, a minus sign when negative.\<close>

definition digit_char :: "nat \<Rightarrow> char" where
  "digit_char d = ''0123456789'' ! d"

function str_nat :: "nat \<Rightarrow> string" where
  "str_nat n = (if n < 10 then [digit_char n] else str_nat (n div 10) @ [digit_char (n mod 10)])"
  by pat_completeness auto
termination
  by (relation "measure id") auto

declare str_nat.simps [simp del]

definition str_int :: "int \<Rightarrow> string" where
  "str_int i = (if i < 0 then CHR ''-'' # str_nat (nat (- i)) else str_nat (nat i))"

section \<open>The program tree (parser.py)\<close>

text \<open>
  An argument's \<open>value\<close> is a string (a quoted literal, an identifier or a condition) or
  an integer (a NUMBER literal); a SATURATE carries its block. An \<open>Operation\<close> of the
  source is an operator name with its argument list; the parser builds exactly the shapes
  below (operator in \<open>OPERATOR_ARITY\<close>, that many arguments, a block for SATURATE only),
  and the machine reads nothing but the operator and the arguments' values.
\<close>

datatype pyvalue = PStr string | PInt int

datatype operation =
    PUSH pyvalue
  | INVERT
  | BIND pyvalue pyvalue
  | RELEASE pyvalue
  | GATE pyvalue
  | SATURATE "operation list"
  | WITNESS
  | HALT

datatype phase = Phase (name: string) (operations: "operation list")

datatype program = Program (phases: "phase list")

definition py_str :: "pyvalue \<Rightarrow> string" where
  "py_str v = (case v of PStr s \<Rightarrow> s | PInt i \<Rightarrow> str_int i)"

section \<open>The virtual machine (vm.py, errors.py)\<close>

text \<open>The exceptions that the machine raises. \<open>AttributeError\<close> is Python's own, raised
  by \<open>condition.strip()\<close> when a GATE argument is an integer literal.\<close>

datatype exn =
    StackOverflowError
  | BindingsOverflowError
  | CycleLimitError
  | OperationLimitError
  | ConditionError
  | BreakBlock
  | HaltProgram
  | AttributeError

record VMConfig =
  max_operations :: int
  max_stack_depth :: int
  max_saturate_iterations :: int
  max_bindings :: int
  trace_enabled :: bool

definition default_config :: VMConfig where
  "default_config =
     \<lparr>max_operations = 100000, max_stack_depth = 256, max_saturate_iterations = 1000,
      max_bindings = 1024, trace_enabled = False\<rparr>"

record checkpoint =
  cp_phase :: "string option"
  cp_operation :: int
  cp_stack :: "string list"
  cp_bindings :: "(string, string) fmap"

record vm_state =
  stack :: "string list"
  bindings :: "(string, string) fmap"
  phase_counter :: int
  operation_counter :: int
  halted :: bool
  trace :: "checkpoint list"
  current_phase_name :: "string option"

text \<open>A method of the machine returns the exception it raised, if any, together with the
  fields of the machine as they are at that moment: a raise does not undo earlier writes.\<close>

type_synonym outcome = "exn option \<times> vm_state"

definition reset :: vm_state where
  "reset =
     \<lparr>stack = [], bindings = fmempty, phase_counter = 0, operation_counter = 0,
      halted = False, trace = [], current_phase_name = None\<rparr>"

definition op_push :: "VMConfig \<Rightarrow> pyvalue \<Rightarrow> vm_state \<Rightarrow> outcome" where
  "op_push cfg v st =
     (if int (length (stack st)) \<ge> max_stack_depth cfg then (Some StackOverflowError, st)
      else (None, st\<lparr>stack := stack st @ [py_str v]\<rparr>))"

definition op_invert :: "vm_state \<Rightarrow> outcome" where
  "op_invert st = (None, st\<lparr>stack := rev (stack st)\<rparr>)"

definition op_bind :: "VMConfig \<Rightarrow> pyvalue \<Rightarrow> pyvalue \<Rightarrow> vm_state \<Rightarrow> outcome" where
  "op_bind cfg k v st =
     (if int (fcard (fmdom (bindings st))) \<ge> max_bindings cfg
      then (Some BindingsOverflowError, st)
      else (None, st\<lparr>bindings := fmupd (py_str k) (py_str v) (bindings st)\<rparr>))"

definition op_release :: "pyvalue \<Rightarrow> vm_state \<Rightarrow> outcome" where
  "op_release k st = (None, st\<lparr>bindings := fmdrop (py_str k) (bindings st)\<rparr>)"

definition evaluate_condition :: "string \<Rightarrow> vm_state \<Rightarrow> exn + bool" where
  "evaluate_condition cond st =
     (let condition = py_strip cond in
      if startswith condition ''depth'' then
        (let parts = py_split condition in
         if length parts \<noteq> 3 then Inl ConditionError
         else
           (let operator = parts ! 1 in
            case py_int (parts ! 2) of
              None \<Rightarrow> Inl ConditionError
            | Some v \<Rightarrow>
                (let depth = int (length (stack st)) in
                 if operator = ''<'' then Inr (depth < v)
                 else if operator = ''>'' then Inr (depth > v)
                 else if operator = ''=='' then Inr (depth = v)
                 else Inl ConditionError)))
      else if startswith condition ''bound'' then
        (let key = (if length (py_split condition) > 1 then py_split condition ! 1 else [])
         in Inr (key |\<in>| fmdom (bindings st)))
      else if startswith condition ''unbound'' then
        (let key = (if length (py_split condition) > 1 then py_split condition ! 1 else [])
         in Inr (key |\<notin>| fmdom (bindings st)))
      else Inl ConditionError)"

definition op_gate :: "pyvalue \<Rightarrow> vm_state \<Rightarrow> outcome" where
  "op_gate v st =
     (case v of
        PInt i \<Rightarrow> (Some AttributeError, st)
      | PStr condition \<Rightarrow>
          (case evaluate_condition condition st of
             Inl e \<Rightarrow> (Some e, st)
           | Inr b \<Rightarrow> if \<not> b then (Some BreakBlock, st) else (None, st)))"

definition op_witness :: "VMConfig \<Rightarrow> vm_state \<Rightarrow> outcome" where
  "op_witness cfg st =
     (if trace_enabled cfg
      then (None, st\<lparr>trace := trace st @
              [\<lparr>cp_phase = current_phase_name st, cp_operation = operation_counter st,
                cp_stack = stack st, cp_bindings = bindings st\<rparr>]\<rparr>)
      else (None, st))"

definition op_halt :: "vm_state \<Rightarrow> outcome" where
  "op_halt st = (Some HaltProgram, st\<lparr>halted := True\<rparr>)"

text \<open>A snapshot is the pair of the stack and the bindings; two snapshots are equal when
  the stacks are equal as sequences and the bindings are equal as mappings.\<close>

definition snapshot_state :: "vm_state \<Rightarrow> string list \<times> (string, string) fmap" where
  "snapshot_state st = (stack st, bindings st)"

definition states_equal ::
  "string list \<times> (string, string) fmap \<Rightarrow> string list \<times> (string, string) fmap \<Rightarrow> bool" where
  "states_equal state1 state2 = (fst state1 = fst state2 \<and> snd state1 = snd state2)"

text \<open>
  \<open>execute_operation\<close> and \<open>op_saturate\<close> call each other. \<open>execute_block\<close> is the
  \<open>for operation in operations\<close> loop inside \<open>op_saturate\<close>, and \<open>saturate_loop\<close> is its
  \<open>while\<close> loop, which returns the final value of \<open>iteration\<close> with the outcome: the
  outcome is \<open>None\<close> when the loop was left by its condition or by a \<open>break\<close>.
\<close>

function
  execute_operation :: "VMConfig \<Rightarrow> operation \<Rightarrow> vm_state \<Rightarrow> outcome" and
  execute_block :: "VMConfig \<Rightarrow> operation list \<Rightarrow> vm_state \<Rightarrow> outcome" and
  saturate_loop :: "VMConfig \<Rightarrow> operation list \<Rightarrow> int \<Rightarrow> vm_state \<Rightarrow> outcome \<times> int" and
  op_saturate :: "VMConfig \<Rightarrow> operation list \<Rightarrow> vm_state \<Rightarrow> outcome"
where
  "execute_operation cfg operation st =
     (if operation_counter st \<ge> max_operations cfg then (Some OperationLimitError, st)
      else
        (let st1 = st\<lparr>operation_counter := operation_counter st + 1\<rparr> in
         case operation of
           PUSH v \<Rightarrow> op_push cfg v st1
         | INVERT \<Rightarrow> op_invert st1
         | BIND k v \<Rightarrow> op_bind cfg k v st1
         | RELEASE k \<Rightarrow> op_release k st1
         | GATE c \<Rightarrow> op_gate c st1
         | SATURATE ops \<Rightarrow> op_saturate cfg ops st1
         | WITNESS \<Rightarrow> op_witness cfg st1
         | HALT \<Rightarrow> op_halt st1))"
| "execute_block cfg [] st = (None, st)"
| "execute_block cfg (operation # rest) st =
     (case execute_operation cfg operation st of
        (None, st') \<Rightarrow> execute_block cfg rest st'
      | (Some e, st') \<Rightarrow> (Some e, st'))"
| "saturate_loop cfg ops iteration st =
     (if iteration < max_saturate_iterations cfg then
        (let state_before = snapshot_state st in
         case execute_block cfg ops st of
           (Some e, st') \<Rightarrow>
             if e = BreakBlock then ((None, st'), iteration) else ((Some e, st'), iteration)
         | (None, st') \<Rightarrow>
             (let state_after = snapshot_state st' in
              if states_equal state_before state_after then ((None, st'), iteration)
              else saturate_loop cfg ops (iteration + 1) st'))
      else ((None, st), iteration))"
| "op_saturate cfg ops st =
     (case saturate_loop cfg ops 0 st of
        ((Some e, st'), iteration) \<Rightarrow> (Some e, st')
      | ((None, st'), iteration) \<Rightarrow>
          if iteration \<ge> max_saturate_iterations cfg then (Some CycleLimitError, st')
          else (None, st'))"
  by pat_completeness auto

termination
  by (relation "measures
       [(\<lambda>x. case x of
               Inl (Inl (cfg, operation, st)) \<Rightarrow> size operation
             | Inl (Inr (cfg, ops, st)) \<Rightarrow> size_list size ops
             | Inr (Inl (cfg, ops, iteration, st)) \<Rightarrow> size_list size ops
             | Inr (Inr (cfg, ops, st)) \<Rightarrow> size_list size ops),
        (\<lambda>x. case x of
               Inl (Inl (cfg, operation, st)) \<Rightarrow> 0
             | Inl (Inr (cfg, ops, st)) \<Rightarrow> 0
             | Inr (Inl (cfg, ops, iteration, st)) \<Rightarrow> 1
             | Inr (Inr (cfg, ops, st)) \<Rightarrow> 2),
        (\<lambda>x. case x of
               Inl (Inl (cfg, operation, st)) \<Rightarrow> 0
             | Inl (Inr (cfg, ops, st)) \<Rightarrow> 0
             | Inr (Inl (cfg, ops, iteration, st)) \<Rightarrow>
                 nat (max_saturate_iterations cfg - iteration)
             | Inr (Inr (cfg, ops, st)) \<Rightarrow> 0)]")
    auto

declare execute_operation.simps [simp del] saturate_loop.simps [simp del]
  op_saturate.simps [simp del]

text \<open>The number of times the \<open>while\<close> loop of \<open>op_saturate\<close> starts its block, counted
  along the same recursion as \<open>saturate_loop\<close>.\<close>

function saturate_runs :: "VMConfig \<Rightarrow> operation list \<Rightarrow> int \<Rightarrow> vm_state \<Rightarrow> nat" where
  "saturate_runs cfg ops iteration st =
     (if iteration < max_saturate_iterations cfg then
        (case execute_block cfg ops st of
           (Some e, st') \<Rightarrow> 1
         | (None, st') \<Rightarrow>
             if states_equal (snapshot_state st) (snapshot_state st') then 1
             else 1 + saturate_runs cfg ops (iteration + 1) st')
      else 0)"
  by pat_completeness auto
termination
  by (relation "measure (\<lambda>(cfg, ops, iteration, st). nat (max_saturate_iterations cfg - iteration))")
    auto

declare saturate_runs.simps [simp del]

text \<open>\<open>execute_phase\<close>: the operations of a phase in order, with the \<open>halted\<close> test before
  each of them.\<close>

fun phase_loop :: "VMConfig \<Rightarrow> operation list \<Rightarrow> vm_state \<Rightarrow> outcome" where
  "phase_loop cfg [] st = (None, st)"
| "phase_loop cfg (operation # rest) st =
     (if halted st then (None, st)
      else
        (case execute_operation cfg operation st of
           (None, st') \<Rightarrow> phase_loop cfg rest st'
         | (Some e, st') \<Rightarrow> (Some e, st')))"

definition execute_phase :: "VMConfig \<Rightarrow> phase \<Rightarrow> vm_state \<Rightarrow> outcome" where
  "execute_phase cfg ph st = phase_loop cfg (operations ph) st"

text \<open>The \<open>for phase in program.phases\<close> loop of \<open>execute\<close>.\<close>

fun execute_phases :: "VMConfig \<Rightarrow> phase list \<Rightarrow> vm_state \<Rightarrow> outcome" where
  "execute_phases cfg [] st = (None, st)"
| "execute_phases cfg (ph # rest) st =
     (if halted st then (None, st)
      else
        (let st1 = st\<lparr>current_phase_name := Some (name ph),
                       phase_counter := phase_counter st + 1\<rparr> in
         case execute_phase cfg ph st1 of
           (None, st') \<Rightarrow> execute_phases cfg rest st'
         | (Some e, st') \<Rightarrow> (Some e, st')))"

record final_state =
  fs_stack :: "string list"
  fs_bindings :: "(string, string) fmap"
  depth :: int
  binding_count :: int

record ExecutionResult =
  status :: string
  phases_executed :: int
  operations_executed :: int
  final_state :: final_state
  result_trace :: "checkpoint list"

text \<open>The status that the \<open>try\<close> statement of \<open>execute\<close> assigns. It has no handler for
  \<open>BreakBlock\<close> or for \<open>AttributeError\<close>: these leave \<open>execute\<close> as exceptions.\<close>

definition status_of :: "exn option \<Rightarrow> vm_state \<Rightarrow> exn + string" where
  "status_of r st =
     (case r of
        None \<Rightarrow> Inr (if halted st then ''HALTED'' else ''COMPLETE'')
      | Some HaltProgram \<Rightarrow> Inr ''HALTED''
      | Some StackOverflowError \<Rightarrow> Inr ''ERR_STACK_OVERFLOW''
      | Some BindingsOverflowError \<Rightarrow> Inr ''ERR_BINDINGS_OVERFLOW''
      | Some CycleLimitError \<Rightarrow> Inr ''TERM_CYCLE_LIMIT''
      | Some OperationLimitError \<Rightarrow> Inr ''TERM_OP_LIMIT''
      | Some ConditionError \<Rightarrow> Inr ''ERR_CONDITION''
      | Some BreakBlock \<Rightarrow> Inl BreakBlock
      | Some AttributeError \<Rightarrow> Inl AttributeError)"

text \<open>\<open>execute\<close> returns the result, or the exception that escapes it (\<open>Inl\<close>). The
  \<open>error_message\<close> field of the result is left out.\<close>

definition execute :: "VMConfig \<Rightarrow> program \<Rightarrow> exn + ExecutionResult" where
  "execute cfg prog =
     (case execute_phases cfg (phases prog) reset of
        (r, st) \<Rightarrow>
          (case status_of r st of
             Inl e \<Rightarrow> Inl e
           | Inr s \<Rightarrow>
               Inr \<lparr>status = s,
                    phases_executed = phase_counter st,
                    operations_executed = operation_counter st,
                    final_state =
                      \<lparr>fs_stack = stack st, fs_bindings = bindings st,
                       depth = int (length (stack st)),
                       binding_count = int (fcard (fmdom (bindings st)))\<rparr>,
                    result_trace = (if trace_enabled cfg then trace st else [])\<rparr>))"

section \<open>The tokenizer (parser.py)\<close>

datatype token_type =
  COMMENT | LBRACE | RBRACE | STRING | NUMBER | KEYWORD | IDENT | SYMBOL | WHITESPACE

text \<open>A token is \<open>(token_type, token_value, line, column)\<close>.\<close>

type_synonym token = "token_type \<times> string \<times> nat \<times> nat"

definition is_upper :: "char \<Rightarrow> bool" where
  "is_upper c = (c \<in> set ''ABCDEFGHIJKLMNOPQRSTUVWXYZ'')"

definition is_lower :: "char \<Rightarrow> bool" where
  "is_lower c = (c \<in> set ''abcdefghijklmnopqrstuvwxyz'')"

definition keyword_start :: "char \<Rightarrow> bool" where
  "keyword_start c = (is_upper c \<or> c = CHR ''_'')"

definition keyword_rest :: "char \<Rightarrow> bool" where
  "keyword_rest c = (is_upper c \<or> is_digit c \<or> c = CHR ''_'')"

definition ident_start :: "char \<Rightarrow> bool" where
  "ident_start c = (is_lower c \<or> c = CHR ''_'')"

definition ident_rest :: "char \<Rightarrow> bool" where
  "ident_rest c = (is_lower c \<or> is_digit c \<or> c = CHR ''_'')"

definition is_symbol :: "char \<Rightarrow> bool" where
  "is_symbol c = (c \<in> set ''<>=!'')"

definition is_blank :: "char \<Rightarrow> bool" where
  "is_blank c = (c = CHR '' '' \<or> c = CHR 0x09 \<or> c = CHR 0x0A \<or> c = CHR 0x0D)"

definition not_newline :: "char \<Rightarrow> bool" where
  "not_newline c = (c \<noteq> CHR 0x0A)"

definition not_quote :: "char \<Rightarrow> bool" where
  "not_quote c = (c \<noteq> CHR 0x22)"

text \<open>
  \<open>regex.finditer\<close> over the alternation of \<open>TOKEN_PATTERNS\<close>: at each position the first
  pattern that matches there is taken, with its longest repetition, and the search goes on
  after the match; at a position where no pattern matches the search moves one character
  on. \<open>tokenize_from line column rest\<close> is the loop with the tokenizer's \<open>line\<close> and
  \<open>column\<close> fields and the part of the source not yet searched.
\<close>

function tokenize_from :: "nat \<Rightarrow> nat \<Rightarrow> string \<Rightarrow> token list" where
  "tokenize_from line column [] = []"
| "tokenize_from line column (c # cs) =
     (if c = CHR ''#'' then tokenize_from (line + 1) 1 (dropWhile not_newline cs)
      else if c = CHR ''{'' then (LBRACE, [c], line, column) # tokenize_from line (column + 1) cs
      else if c = CHR ''}'' then (RBRACE, [c], line, column) # tokenize_from line (column + 1) cs
      else if c = CHR 0x22 \<and> dropWhile not_quote cs \<noteq> [] then
        (STRING, takeWhile not_quote cs, line, column)
          # tokenize_from line (column + (length (takeWhile not_quote cs) + 2))
              (tl (dropWhile not_quote cs))
      else if is_digit c then
        (NUMBER, c # takeWhile is_digit cs, line, column)
          # tokenize_from line (column + length (c # takeWhile is_digit cs))
              (dropWhile is_digit cs)
      else if keyword_start c then
        (KEYWORD, c # takeWhile keyword_rest cs, line, column)
          # tokenize_from line (column + length (c # takeWhile keyword_rest cs))
              (dropWhile keyword_rest cs)
      else if ident_start c then
        (IDENT, c # takeWhile ident_rest cs, line, column)
          # tokenize_from line (column + length (c # takeWhile ident_rest cs))
              (dropWhile ident_rest cs)
      else if is_symbol c then
        (SYMBOL, c # takeWhile is_symbol cs, line, column)
          # tokenize_from line (column + length (c # takeWhile is_symbol cs))
              (dropWhile is_symbol cs)
      else if is_blank c then
        (let token_value = c # takeWhile is_blank cs in
         tokenize_from (line + count_list token_value (CHR 0x0A))
           (if CHR 0x0A \<in> set token_value
            then length (takeWhile not_newline (rev token_value)) + 1
            else column + length token_value)
           (dropWhile is_blank cs))
      else tokenize_from line column cs)"
  by pat_completeness auto
termination
  by (relation "measure (\<lambda>(line, column, s). length s)")
    (auto simp: length_dropWhile_le less_Suc_eq_le
       intro: le_trans [OF diff_le_self length_dropWhile_le])

definition tokenize :: "string \<Rightarrow> token list" where
  "tokenize source = tokenize_from 1 1 source"

section \<open>The parser (parser.py)\<close>

text \<open>A \<open>ParseError\<close> with its message and its line, when it has one.\<close>

datatype parse_error = ParseError string "nat option"

definition OPERATOR_ARITY :: "(string \<times> nat) list" where
  "OPERATOR_ARITY =
     [(''PUSH'', 1), (''INVERT'', 0), (''BIND'', 2), (''RELEASE'', 1), (''GATE'', 1),
      (''SATURATE'', 1), (''WITNESS'', 0), (''HALT'', 0)]"

definition type_name :: "token_type \<Rightarrow> string" where
  "type_name t =
     (case t of
        COMMENT \<Rightarrow> ''COMMENT'' | LBRACE \<Rightarrow> ''LBRACE'' | RBRACE \<Rightarrow> ''RBRACE''
      | STRING \<Rightarrow> ''STRING'' | NUMBER \<Rightarrow> ''NUMBER'' | KEYWORD \<Rightarrow> ''KEYWORD''
      | IDENT \<Rightarrow> ''IDENT'' | SYMBOL \<Rightarrow> ''SYMBOL'' | WHITESPACE \<Rightarrow> ''WHITESPACE'')"

definition quoted :: "string \<Rightarrow> string" where
  "quoted v = [CHR 0x27] @ v @ [CHR 0x27]"

text \<open>The parser's position is kept as the list of the tokens from \<open>pos\<close> on.\<close>

definition consume :: "token_type option \<Rightarrow> token list \<Rightarrow> parse_error + token \<times> token list" where
  "consume expected_type toks =
     (case toks of
        [] \<Rightarrow> Inl (ParseError ''Unexpected end of file'' None)
      | (token_type, v, line, column) # rest \<Rightarrow>
          (case expected_type of
             None \<Rightarrow> Inr ((token_type, v, line, column), rest)
           | Some e \<Rightarrow>
               if token_type \<noteq> e
               then Inl (ParseError
                      (''Expected '' @ type_name e @ '', got '' @ type_name token_type
                        @ '' '' @ quoted v) (Some line))
               else Inr ((token_type, v, line, column), rest)))"

definition peek :: "token list \<Rightarrow> token_type option" where
  "peek toks = (case toks of [] \<Rightarrow> None | t # rest \<Rightarrow> Some (fst t))"

text \<open>\<open>int(value)\<close> on the lexeme of a NUMBER token, which holds decimal digits only.\<close>

definition decimal :: "string \<Rightarrow> int" where
  "decimal v = int (foldl (\<lambda>a c. 10 * a + digit_val c) 0 v)"

text \<open>An \<open>Argument\<close> is kept as its \<open>value\<close>; its \<open>type\<close> tag (LITERAL for a string or a
  number, REFERENCE for an identifier or a condition) is read by nothing but \<open>to_dict\<close>.\<close>

definition parse_argument :: "token list \<Rightarrow> parse_error + pyvalue \<times> token list" where
  "parse_argument toks =
     (case toks of
        [] \<Rightarrow> Inl (ParseError ''Expected argument'' None)
      | (token_type, v, line, column) # rest \<Rightarrow>
          if token_type = STRING then Inr (PStr v, rest)
          else if token_type = NUMBER then Inr (PInt (decimal v), rest)
          else if token_type = IDENT then Inr (PStr v, rest)
          else if token_type = SYMBOL then
            (case rest of
               [] \<Rightarrow> Inr (PStr v, rest)
             | (next_type, operand, line', column') # rest' \<Rightarrow>
                 if next_type = NUMBER \<or> next_type = IDENT
                 then Inr (PStr (v @ '' '' @ operand), rest')
                 else Inr (PStr v, rest))
          else Inl (ParseError
                 (''Unexpected token type '' @ type_name token_type @ '' as argument'')
                 (Some line)))"

text \<open>\<open>for _ in range(expected_arity)\<close>.\<close>

fun parse_arguments :: "nat \<Rightarrow> token list \<Rightarrow> parse_error + pyvalue list \<times> token list" where
  "parse_arguments 0 toks = Inr ([], toks)"
| "parse_arguments (Suc n) toks =
     (case parse_argument toks of
        Inl e \<Rightarrow> Inl e
      | Inr (arg, toks') \<Rightarrow>
          (case parse_arguments n toks' of
             Inl e \<Rightarrow> Inl e
           | Inr (args, toks'') \<Rightarrow> Inr (arg # args, toks'')))"

text \<open>\<open>Operation(operator, arguments)\<close> for an operator other than SATURATE, as the
  constructor that the dispatch of \<open>execute_operation\<close> selects; the arguments are read
  by index as the dispatch reads them, and their number is the operator's arity.\<close>

definition build_operation :: "string \<Rightarrow> pyvalue list \<Rightarrow> operation" where
  "build_operation operator args =
     (if operator = ''PUSH'' then PUSH (args ! 0)
      else if operator = ''INVERT'' then INVERT
      else if operator = ''BIND'' then BIND (args ! 0) (args ! 1)
      else if operator = ''RELEASE'' then RELEASE (args ! 0)
      else if operator = ''GATE'' then GATE (args ! 0)
      else if operator = ''WITNESS'' then WITNESS
      else HALT)"

text \<open>
  The recursive descent takes a bound on the depth of its calls as first argument and
  returns \<open>None\<close> when the bound is used up; \<open>parse_program\<close> starts it with a bound
  taken from the number of tokens. \<open>parse_block\<close> is the \<open>while\<close> loop of the SATURATE
  case, \<open>parse_phase_operations\<close> the one of \<open>parse_phase\<close> and \<open>parse_phases\<close> the one
  of \<open>parse_program\<close>.
\<close>

fun
  parse_operation :: "nat \<Rightarrow> token list \<Rightarrow> (parse_error + operation \<times> token list) option" and
  parse_block ::
    "nat \<Rightarrow> nat \<Rightarrow> operation list \<Rightarrow> token list
      \<Rightarrow> (parse_error + operation list \<times> token list) option"
where
  "parse_operation 0 toks = None"
| "parse_operation (Suc fuel) toks =
     (case consume (Some KEYWORD) toks of
        Inl e \<Rightarrow> Some (Inl e)
      | Inr ((token_type, operator, line, column), toks1) \<Rightarrow>
          (case map_of OPERATOR_ARITY operator of
             None \<Rightarrow>
               Some (Inl (ParseError (''Unknown operator '' @ quoted operator) (Some line)))
           | Some expected_arity \<Rightarrow>
               if operator = ''SATURATE'' then
                 (case consume (Some LBRACE) toks1 of
                    Inl e \<Rightarrow> Some (Inl e)
                  | Inr (t, toks2) \<Rightarrow>
                      (case parse_block fuel line [] toks2 of
                         None \<Rightarrow> None
                       | Some (Inl e) \<Rightarrow> Some (Inl e)
                       | Some (Inr (block_ops, toks3)) \<Rightarrow>
                           (case consume (Some RBRACE) toks3 of
                              Inl e \<Rightarrow> Some (Inl e)
                            | Inr (t', toks4) \<Rightarrow> Some (Inr (SATURATE block_ops, toks4)))))
               else
                 (case parse_arguments expected_arity toks1 of
                    Inl e \<Rightarrow> Some (Inl e)
                  | Inr (args, toks2) \<Rightarrow> Some (Inr (build_operation operator args, toks2)))))"
| "parse_block 0 line block_ops toks = None"
| "parse_block (Suc fuel) line block_ops toks =
     (if peek toks \<noteq> Some RBRACE then
        (if toks = [] then Some (Inl (ParseError ''Unclosed SATURATE block'' (Some line)))
         else
           (case parse_operation fuel toks of
              None \<Rightarrow> None
            | Some (Inl e) \<Rightarrow> Some (Inl e)
            | Some (Inr (operation, toks')) \<Rightarrow>
                parse_block fuel line (block_ops @ [operation]) toks'))
      else Some (Inr (block_ops, toks)))"

fun parse_phase_operations ::
  "nat \<Rightarrow> string \<Rightarrow> nat \<Rightarrow> operation list \<Rightarrow> token list
    \<Rightarrow> (parse_error + operation list \<times> token list) option"
where
  "parse_phase_operations 0 nm line ops toks = None"
| "parse_phase_operations (Suc fuel) nm line ops toks =
     (if peek toks \<noteq> Some RBRACE then
        (if toks = []
         then Some (Inl (ParseError (''Unclosed phase '' @ quoted nm) (Some line)))
         else
           (case parse_operation fuel toks of
              None \<Rightarrow> None
            | Some (Inl e) \<Rightarrow> Some (Inl e)
            | Some (Inr (operation, toks')) \<Rightarrow>
                parse_phase_operations fuel nm line (ops @ [operation]) toks'))
      else Some (Inr (ops, toks)))"

definition parse_phase :: "nat \<Rightarrow> token list \<Rightarrow> (parse_error + phase \<times> token list) option" where
  "parse_phase fuel toks =
     (case consume (Some KEYWORD) toks of
        Inl e \<Rightarrow> Some (Inl e)
      | Inr ((token_type, nm, line, column), toks1) \<Rightarrow>
          (case consume (Some LBRACE) toks1 of
             Inl e \<Rightarrow> Some (Inl e)
           | Inr (t, toks2) \<Rightarrow>
               (case parse_phase_operations fuel nm line [] toks2 of
                  None \<Rightarrow> None
                | Some (Inl e) \<Rightarrow> Some (Inl e)
                | Some (Inr (ops, toks3)) \<Rightarrow>
                    (case consume (Some RBRACE) toks3 of
                       Inl e \<Rightarrow> Some (Inl e)
                     | Inr (t', toks4) \<Rightarrow>
                         if ops = []
                         then Some (Inl (ParseError
                                (''Phase '' @ quoted nm @ '' must have at least one operation'')
                                (Some line)))
                         else Some (Inr (Phase nm ops, toks4))))))"

fun parse_phases ::
  "nat \<Rightarrow> phase list \<Rightarrow> token list \<Rightarrow> (parse_error + phase list) option"
where
  "parse_phases 0 phs toks = None"
| "parse_phases (Suc fuel) phs toks =
     (if toks \<noteq> [] then
        (case parse_phase fuel toks of
           None \<Rightarrow> None
         | Some (Inl e) \<Rightarrow> Some (Inl e)
         | Some (Inr (ph, toks')) \<Rightarrow> parse_phases fuel (phs @ [ph]) toks')
      else Some (Inr phs))"

text \<open>\<open>Parser.parse_program\<close> on a token list, with the call bound given.\<close>

definition parse_tokens :: "nat \<Rightarrow> token list \<Rightarrow> (parse_error + program) option" where
  "parse_tokens fuel toks =
     (case parse_phases fuel [] toks of
        None \<Rightarrow> None
      | Some (Inl e) \<Rightarrow> Some (Inl e)
      | Some (Inr phs) \<Rightarrow>
          if phs = [] then Some (Inl (ParseError ''Program must have at least one phase'' None))
          else Some (Inr (Program phs)))"

text \<open>The module function \<open>parse_program(source)\<close>. The bound is twice the number of
  tokens and two more; a result \<open>None\<close> would say that it was used up.\<close>

definition parse_program :: "string \<Rightarrow> (parse_error + program) option" where
  "parse_program source = (let toks = tokenize source in parse_tokens (2 * length toks + 2) toks)"

text \<open>The three budgets that a state of the machine is to respect.\<close>

definition within_budget :: "VMConfig \<Rightarrow> vm_state \<Rightarrow> bool" where
  "within_budget cfg st =
     (operation_counter st \<le> max_operations cfg
      \<and> int (length (stack st)) \<le> max_stack_depth cfg
      \<and> int (fcard (fmdom (bindings st))) \<le> max_bindings cfg)"

text \<open>Two states of the machine that differ in the \<open>trace\<close> field at most, and two
  outcomes with the same exception and such states.\<close>

definition same_but_trace :: "vm_state \<Rightarrow> vm_state \<Rightarrow> bool" where
  "same_but_trace st st' =
     (stack st = stack st' \<and> bindings st = bindings st' \<and> phase_counter st = phase_counter st'
      \<and> operation_counter st = operation_counter st' \<and> halted st = halted st'
      \<and> current_phase_name st = current_phase_name st')"

definition same_outcome :: "outcome \<Rightarrow> outcome \<Rightarrow> bool" where
  "same_outcome x y = (fst x = fst y \<and> same_but_trace (snd x) (snd y))"

text \<open>The characters at which none of the \<open>TOKEN_PATTERNS\<close> can start a match.\<close>

definition starts_no_token :: "char \<Rightarrow> bool" where
  "starts_no_token c =
     (c \<noteq> CHR ''#'' \<and> c \<noteq> CHR ''{'' \<and> c \<noteq> CHR ''}'' \<and> c \<noteq> CHR 0x22 \<and> \<not> is_digit c
      \<and> \<not> keyword_start c \<and> \<not> ident_start c \<and> \<not> is_symbol c \<and> \<not> is_blank c)"

section \<open>Scenario 3: a SATURATE block with an unquoted GATE condition\<close>

text \<open>
  Claim C1. The source \<open>T { SATURATE { PUSH "x" GATE depth < 5 } HALT }\<close> is said to parse
  and to run to status HALTED with five \<open>x\<close> on the stack. The parser does not get that
  far: \<open>parse_operation\<close> gives GATE its single argument, the identifier \<open>depth\<close>, and the
  loop of the SATURATE block then asks for the KEYWORD of the next operation and finds the
  SYMBOL \<open><\<close>. Parsing ends with the \<open>ParseError\<close> of \<open>consume\<close>, on line 1, and nothing
  is executed.
\<close>

theorem saturate_gate_scenario_parse_error:
  "parse_program ''T { SATURATE { PUSH \"x\" GATE depth < 5 } HALT }'' =
     Some (Inl (ParseError (''Expected KEYWORD, got SYMBOL '' @ quoted ''<'') (Some 1)))"
  by code_simp

section \<open>A failing GATE at the top level of a phase\<close>

text \<open>
  Claim C2. A GATE whose condition is false outside any SATURATE body is said to end its
  phase only, the run going on with the next phase to a normal status. In the machine the
  \<open>BreakBlock\<close> raised by \<open>op_gate\<close> is caught by \<open>op_saturate\<close> alone: neither
  \<open>execute_phase\<close> nor \<open>execute\<close> handles it. The source
  \<open>T { GATE "depth > 5" PUSH "a" } U { PUSH "b" }\<close> parses to two phases, and its execution
  under the default configuration returns no result: \<open>BreakBlock\<close> leaves \<open>execute\<close>.
\<close>

theorem top_level_gate_break_escapes:
  "parse_program ''T { GATE \"depth > 5\" PUSH \"a\" } U { PUSH \"b\" }'' =
     Some (Inr (Program
       [Phase ''T'' [GATE (PStr ''depth > 5''), PUSH (PStr ''a'')],
        Phase ''U'' [PUSH (PStr ''b'')]]))
   \<and> execute default_config (Program
       [Phase ''T'' [GATE (PStr ''depth > 5''), PUSH (PStr ''a'')],
        Phase ''U'' [PUSH (PStr ''b'')]]) = Inl BreakBlock"
  by code_simp

section \<open>BIND on a key that is already bound\<close>

text \<open>
  Claim C3, as stated, fails: \<open>op_bind\<close> compares the number of bindings with
  \<open>max_bindings\<close> before it looks at the key, so with \<open>max_bindings = 1\<close> the second BIND
  of \<open>T { BIND "k" "v1" BIND "k" "v2" }\<close> raises \<open>BindingsOverflowError\<close> although its key
  is present, and the value stays \<open>v1\<close>.
\<close>

theorem bind_overwrite_at_capacity_counterexample:
  "execute (default_config\<lparr>max_bindings := 1\<rparr>)
     (Program [Phase ''T'' [BIND (PStr ''k'') (PStr ''v1''), BIND (PStr ''k'') (PStr ''v2'')]])
   = Inr \<lparr>status = ''ERR_BINDINGS_OVERFLOW'', phases_executed = 1, operations_executed = 2,
          final_state = \<lparr>fs_stack = [], fs_bindings = fmupd ''k'' ''v1'' fmempty,
                          depth = 0, binding_count = 1\<rparr>,
          result_trace = []\<rparr>"
  by code_simp

text \<open>
  Claim C3, amended. When the bindings hold fewer than \<open>max_bindings\<close> entries, BIND
  succeeds and stores the value under the key, replacing the former value of a bound key;
  this holds also for a new key that takes the last free entry. The sequence
  \<open>BIND k v1; BIND k v2\<close>, when its second BIND also starts below \<open>max_bindings\<close> (the
  key was bound before, or two entries were free), leaves \<open>v2\<close> under \<open>k\<close>, changes no
  other key, and leaves the number of bindings one greater than before when \<open>k\<close> was new
  and unchanged when \<open>k\<close> was bound already.
\<close>

theorem bind_sequence_below_capacity:
  assumes first: "int (fcard (fmdom (bindings st))) < max_bindings cfg"
  shows "op_bind cfg k v1 st =
           (None, st\<lparr>bindings := fmupd (py_str k) (py_str v1) (bindings st)\<rparr>)
       \<and> fmlookup (fmupd (py_str k) (py_str v1) (bindings st)) (py_str k) = Some (py_str v1)
       \<and> fcard (fmdom (fmupd (py_str k) (py_str v1) (bindings st))) =
           (if py_str k |\<in>| fmdom (bindings st) then fcard (fmdom (bindings st))
            else fcard (fmdom (bindings st)) + 1)
       \<and> (py_str k |\<in>| fmdom (bindings st)
            \<or> int (fcard (fmdom (bindings st))) + 1 < max_bindings cfg \<longrightarrow>
          op_bind cfg k v2 (st\<lparr>bindings := fmupd (py_str k) (py_str v1) (bindings st)\<rparr>) =
            (None, st\<lparr>bindings := fmupd (py_str k) (py_str v2) (bindings st)\<rparr>)
          \<and> fmlookup (fmupd (py_str k) (py_str v2) (bindings st)) (py_str k) = Some (py_str v2)
          \<and> fcard (fmdom (fmupd (py_str k) (py_str v2) (bindings st))) =
              (if py_str k |\<in>| fmdom (bindings st) then fcard (fmdom (bindings st))
               else fcard (fmdom (bindings st)) + 1))"
proof -
  let ?m1 = "fmupd (py_str k) (py_str v1) (bindings st)"
  have one: "op_bind cfg k v1 st = (None, st\<lparr>bindings := ?m1\<rparr>)"
    using first by (simp add: op_bind_def)
  have two: "op_bind cfg k v2 (st\<lparr>bindings := ?m1\<rparr>) =
      (None, st\<lparr>bindings := fmupd (py_str k) (py_str v2) (bindings st)\<rparr>)"
    if second: "py_str k |\<in>| fmdom (bindings st)
                \<or> int (fcard (fmdom (bindings st))) + 1 < max_bindings cfg"
  proof -
    have "int (fcard (fmdom ?m1)) < max_bindings cfg"
      using first second by (auto simp: fcard_finsert_if)
    then show ?thesis by (simp add: op_bind_def)
  qed
  show ?thesis
    using one two by (simp add: fcard_finsert_if)
qed

theorem bind_sequence_below_capacity_witness:
  "op_bind (default_config\<lparr>max_bindings := 1\<rparr>) (PStr ''k'') (PStr ''v1'') reset =
     (None, reset\<lparr>bindings := fmupd ''k'' ''v1'' fmempty\<rparr>)
   \<and> op_bind default_config (PStr ''k'') (PStr ''v1'') reset =
     (None, reset\<lparr>bindings := fmupd ''k'' ''v1'' fmempty\<rparr>)
   \<and> op_bind default_config (PStr ''k'') (PStr ''v2'')
       (reset\<lparr>bindings := fmupd ''k'' ''v1'' fmempty\<rparr>) =
     (None, reset\<lparr>bindings := fmupd ''k'' ''v2'' fmempty\<rparr>)
   \<and> fcard (fmdom (fmupd ''k'' ''v2'' fmempty)) = 1"
  using bind_sequence_below_capacity
    [where st = reset and cfg = "default_config\<lparr>max_bindings := 1\<rparr>" and k = "PStr ''k''"
       and ?v1.0 = "PStr ''v1''" and ?v2.0 = "PStr ''v2''"]
    bind_sequence_below_capacity
    [where st = reset and cfg = default_config and k = "PStr ''k''"
       and ?v1.0 = "PStr ''v1''" and ?v2.0 = "PStr ''v2''"]
  by (simp add: reset_def default_config_def py_str_def fcard_fempty fcard_finsert_if)

section \<open>Characters that match no token pattern\<close>

text \<open>
  Claim C4, as stated, fails: the tokenizer has no failing path. \<open>finditer\<close> passes over a
  character at which no pattern matches, so the \<open>@\<close> of \<open>T { @ HALT }\<close> leaves no token
  and the text parses to the phase \<open>T\<close> with the single operation HALT.
\<close>

theorem unmatched_character_counterexample:
  "starts_no_token (CHR ''@'')
   \<and> parse_program ''T { @ HALT }'' = Some (Inr (Program [Phase ''T'' [HALT]]))"
  by code_simp

lemma dropWhile_not_quote_none: "CHR 0x22 \<notin> set cs \<Longrightarrow> dropWhile not_quote cs = []"
  by (induction cs) (auto simp: not_quote_def)

text \<open>
  Claim C4, amended. The tokenizer never fails. At a position where no pattern matches (a
  character that starts none of the patterns, or a double quote with no closing quote
  after it) the character is skipped: it gives no token and no error, and tokenizing goes
  on at the next character with the same line and column.
\<close>

theorem unmatched_character_skipped:
  assumes "starts_no_token c \<or> (c = CHR 0x22 \<and> CHR 0x22 \<notin> set cs)"
  shows "tokenize_from line column (c # cs) = tokenize_from line column cs"
  using assms
proof
  assume "starts_no_token c"
  then show ?thesis by (simp add: starts_no_token_def)
next
  assume q: "c = CHR 0x22 \<and> CHR 0x22 \<notin> set cs"
  then have "dropWhile not_quote cs = []" by (simp add: dropWhile_not_quote_none)
  with q show ?thesis
    by (simp add: is_digit_def keyword_start_def ident_start_def is_symbol_def is_blank_def
          is_upper_def is_lower_def)
qed

theorem unmatched_character_skipped_witness:
  "starts_no_token (CHR ''@'')
   \<and> tokenize_from 1 5 ''@ HALT }'' = tokenize_from 1 5 '' HALT }''"
  using unmatched_character_skipped [of "CHR ''@''" "'' HALT }''" 1 5]
  by (simp add: starts_no_token_def is_digit_def keyword_start_def ident_start_def is_symbol_def
        is_blank_def is_upper_def is_lower_def)

section \<open>The condition evaluator\<close>

subsection \<open>Decimal strings\<close>

lemma digit_char_cases:
  "d < 10 \<Longrightarrow> d = 0 \<or> d = 1 \<or> d = 2 \<or> d = 3 \<or> d = 4 \<or> d = 5 \<or> d = 6 \<or> d = 7 \<or> d = 8 \<or> d = (9::nat)"
  by arith

lemma is_digit_digit_char: "d < 10 \<Longrightarrow> is_digit (digit_char d)"
  using digit_char_cases [of d] by (auto simp: is_digit_def digit_char_def)

lemma digit_val_digit_char: "d < 10 \<Longrightarrow> digit_val (digit_char d) = d"
  using digit_char_cases [of d] by (auto simp: digit_val_def digit_char_def)

lemma is_digit_not_space: "is_digit c \<Longrightarrow> \<not> py_isspace c"
  by (auto simp: is_digit_def py_isspace_def)

lemma is_digit_not_sign: "is_digit c \<Longrightarrow> c \<noteq> CHR ''-'' \<and> c \<noteq> CHR ''+'' \<and> c \<noteq> CHR ''_''"
  by (auto simp: is_digit_def)

lemma str_nat_digits: "\<forall>c \<in> set (str_nat n). is_digit c"
proof (induction n rule: str_nat.induct)
  case (1 n)
  show ?case
  proof (cases "n < 10")
    case True
    then show ?thesis by (subst str_nat.simps) (simp add: is_digit_digit_char)
  next
    case False
    with 1 show ?thesis by (subst str_nat.simps) (simp add: is_digit_digit_char)
  qed
qed

lemma str_nat_nonempty: "str_nat n \<noteq> []"
  by (subst str_nat.simps) simp

lemma py_digits_all_digits:
  "\<forall>c \<in> set xs. is_digit c \<Longrightarrow>
     py_digits acc xs = Some (foldl (\<lambda>a c. 10 * a + digit_val c) acc xs)"
  by (induction xs arbitrary: acc) auto

lemma str_nat_value: "foldl (\<lambda>a c. 10 * a + digit_val c) 0 (str_nat n) = n"
proof (induction n rule: str_nat.induct)
  case (1 n)
  show ?case
  proof (cases "n < 10")
    case True
    then show ?thesis by (subst str_nat.simps) (simp add: digit_val_digit_char)
  next
    case False
    with 1 show ?thesis by (subst str_nat.simps) (simp add: digit_val_digit_char)
  qed
qed

lemma py_int_str_nat: "py_int (str_nat n) = Some (int n)"
proof (cases "str_nat n")
  case Nil
  then show ?thesis using str_nat_nonempty by simp
next
  case (Cons c cs)
  have d: "\<forall>x \<in> set (c # cs). is_digit x" using str_nat_digits [of n] Cons by simp
  have v: "foldl (\<lambda>a c. 10 * a + digit_val c) 0 (c # cs) = n" using str_nat_value [of n] Cons by simp
  have "py_unsigned (c # cs) = Some n"
    using d v by (simp add: py_unsigned_def py_digits_all_digits)
  then show ?thesis
    using d Cons is_digit_not_sign [of c] by (simp add: py_int_def)
qed

subsection \<open>\<open>strip\<close> and \<open>split\<close>\<close>

lemma dropWhile_append_keep:
  "ys \<noteq> [] \<Longrightarrow> \<not> P (hd ys) \<Longrightarrow> \<exists>zs. dropWhile P (xs @ ys) = zs @ ys"
proof (induction xs)
  case Nil
  then have "dropWhile P ys = ys" by (cases ys) auto
  then show ?case by simp
next
  case (Cons x xs)
  then obtain zs where "dropWhile P (xs @ ys) = zs @ ys" by blast
  then show ?case by (cases "P x") (auto intro: exI [of _ "x # xs"])
qed

lemma py_strip_prefix:
  assumes "p \<noteq> []" "\<not> py_isspace (hd p)" "\<not> py_isspace (last p)"
  shows "\<exists>zs. py_strip (p @ rest) = p @ zs"
proof -
  have a: "dropWhile py_isspace (p @ rest) = p @ rest"
    using assms by (cases p) auto
  have "rev p \<noteq> []" "\<not> py_isspace (hd (rev p))"
    using assms by (simp_all add: hd_rev)
  then obtain zs where "dropWhile py_isspace (rev rest @ rev p) = zs @ rev p"
    using dropWhile_append_keep [of "rev p" py_isspace "rev rest"] by blast
  then have "py_strip (p @ rest) = p @ rev zs"
    by (simp add: py_strip_def a)
  then show ?thesis by blast
qed

lemma py_strip_id:
  assumes "s \<noteq> []" "\<not> py_isspace (hd s)" "\<not> py_isspace (last s)"
  shows "py_strip s = s"
proof -
  have a: "dropWhile py_isspace s = s" using assms by (cases s) auto
  have "dropWhile py_isspace (rev s) = rev s"
    using assms by (cases "rev s") (auto simp: hd_rev)
  then show ?thesis by (simp add: py_strip_def a)
qed

lemma split_words_nonspace:
  "\<forall>c \<in> set xs. \<not> py_isspace c \<Longrightarrow> split_words w (xs @ ys) = split_words (w @ xs) ys"
  by (induction xs arbitrary: w) auto

lemma split_words_spaces:
  "\<forall>c \<in> set ys. py_isspace c \<Longrightarrow> split_words w ys = (if w = [] then [] else [w])"
  by (induction ys arbitrary: w) auto

lemma split_words_trailing:
  "\<forall>c \<in> set ys. py_isspace c \<Longrightarrow> split_words w (xs @ ys) = split_words w xs"
  by (induction xs arbitrary: w) (auto simp: split_words_spaces)

lemma split_words_leading: "split_words [] (dropWhile py_isspace s) = split_words [] s"
  by (induction s) auto

lemma py_split_strip: "py_split (py_strip s) = py_split s"
proof -
  let ?t = "dropWhile py_isspace s"
  have "rev (dropWhile py_isspace (rev ?t)) @ rev (takeWhile py_isspace (rev ?t)) = ?t"
    by (metis rev_append rev_rev_ident takeWhile_dropWhile_id)
  moreover have "\<forall>c \<in> set (rev (takeWhile py_isspace (rev ?t))). py_isspace c"
    by (auto dest: set_takeWhileD)
  ultimately have "split_words [] (rev (dropWhile py_isspace (rev ?t))) = split_words [] ?t"
    by (metis split_words_trailing)
  then show ?thesis by (simp add: py_split_def py_strip_def split_words_leading)
qed

lemma py_split_three:
  assumes "w1 \<noteq> []" "w2 \<noteq> []" "w3 \<noteq> []"
    and "\<forall>c \<in> set w1. \<not> py_isspace c" "\<forall>c \<in> set w2. \<not> py_isspace c"
    and "\<forall>c \<in> set w3. \<not> py_isspace c"
  shows "py_split (w1 @ CHR '' '' # w2 @ CHR '' '' # w3) = [w1, w2, w3]"
proof -
  have sp: "py_isspace (CHR '' '')" by (simp add: py_isspace_def)
  have "split_words [] (w3 @ []) = [w3]"
    using assms by (simp only: split_words_nonspace) simp
  then have 3: "split_words [] w3 = [w3]" by simp
  have "split_words [] (w2 @ CHR '' '' # w3) = w2 # split_words [] w3"
    using assms sp by (simp add: split_words_nonspace)
  moreover have "split_words [] (w1 @ CHR '' '' # w2 @ CHR '' '' # w3)
      = w1 # split_words [] (w2 @ CHR '' '' # w3)"
    using assms sp by (simp add: split_words_nonspace)
  ultimately show ?thesis using 3 by (simp add: py_split_def)
qed

lemma py_split_two:
  assumes "w1 \<noteq> []" "w2 \<noteq> []"
    and "\<forall>c \<in> set w1. \<not> py_isspace c" "\<forall>c \<in> set w2. \<not> py_isspace c"
  shows "py_split (w1 @ CHR '' '' # w2) = [w1, w2]"
proof -
  have sp: "py_isspace (CHR '' '')" by (simp add: py_isspace_def)
  have "split_words [] (w2 @ []) = [w2]"
    using assms by (simp only: split_words_nonspace) simp
  then have 2: "split_words [] w2 = [w2]" by simp
  have "split_words [] (w1 @ CHR '' '' # w2) = w1 # split_words [] w2"
    using assms sp by (simp add: split_words_nonspace)
  then show ?thesis using 2 by (simp add: py_split_def)
qed

subsection \<open>The forms that \<open>evaluate_condition\<close> accepts\<close>

lemma str_nat_no_space: "\<forall>c \<in> set (str_nat n). \<not> py_isspace c"
  using str_nat_digits [of n] is_digit_not_space by blast

lemma depth_form:
  assumes "operator \<in> {''<'', ''>'', ''==''}"
  shows "evaluate_condition (''depth '' @ operator @ '' '' @ str_nat n) st =
     Inr (if operator = ''<'' then int (length (stack st)) < int n
          else if operator = ''>'' then int (length (stack st)) > int n
          else int (length (stack st)) = int n)"
proof -
  let ?s = "''depth'' @ CHR '' '' # operator @ CHR '' '' # str_nat n"
  have last: "\<not> py_isspace (last ?s)"
    using str_nat_no_space [of n] str_nat_nonempty [of n] by simp
  have strip: "py_strip ?s = ?s"
    using last by (intro py_strip_id) (simp_all add: py_isspace_def)
  have "operator \<noteq> [] \<and> (\<forall>c \<in> set operator. \<not> py_isspace c)"
    using assms by (auto simp: py_isspace_def)
  then have split: "py_split ?s = [''depth'', operator, str_nat n]"
    using str_nat_no_space [of n] str_nat_nonempty [of n]
    by (intro py_split_three) (auto simp: py_isspace_def)
  have sw: "startswith ?s ''depth''" by (simp add: startswith_def)
  have "evaluate_condition ?s st =
     Inr (if operator = ''<'' then int (length (stack st)) < int n
          else if operator = ''>'' then int (length (stack st)) > int n
          else int (length (stack st)) = int n)"
    unfolding evaluate_condition_def strip Let_def split
    using sw assms by (auto simp: py_int_str_nat)
  then show ?thesis by simp
qed

lemma bound_form:
  assumes "K \<noteq> []" "\<forall>c \<in> set K. \<not> py_isspace c"
  shows "evaluate_condition (''bound '' @ K) st = Inr (K |\<in>| fmdom (bindings st))"
    and "evaluate_condition (''unbound '' @ K) st = Inr (K |\<notin>| fmdom (bindings st))"
proof -
  let ?b = "''bound'' @ CHR '' '' # K" and ?u = "''unbound'' @ CHR '' '' # K"
  have "\<not> py_isspace (last ?b)" "\<not> py_isspace (last ?u)" using assms by simp_all
  then have strip: "py_strip ?b = ?b" "py_strip ?u = ?u"
    by (auto intro!: py_strip_id simp: py_isspace_def)
  have wb: "\<forall>c \<in> set ''bound''. \<not> py_isspace c" "\<forall>c \<in> set ''unbound''. \<not> py_isspace c"
    by (simp_all add: py_isspace_def)
  have split: "py_split ?b = [''bound'', K]" "py_split ?u = [''unbound'', K]"
    using py_split_two [OF _ assms(1) wb(1) assms(2)] py_split_two [OF _ assms(1) wb(2) assms(2)]
    by simp_all
  have "evaluate_condition ?b st = Inr (K |\<in>| fmdom (bindings st))"
    unfolding evaluate_condition_def strip Let_def split by (simp add: startswith_def)
  moreover have "evaluate_condition ?u st = Inr (K |\<notin>| fmdom (bindings st))"
    unfolding evaluate_condition_def strip Let_def split by (simp add: startswith_def)
  ultimately show "evaluate_condition (''bound '' @ K) st = Inr (K |\<in>| fmdom (bindings st))"
    and "evaluate_condition (''unbound '' @ K) st = Inr (K |\<notin>| fmdom (bindings st))"
    by simp_all
qed

lemma bound_prefix:
  "evaluate_condition (''bound'' @ rest) st =
     Inr ((if 1 < length (py_split (''bound'' @ rest)) then py_split (''bound'' @ rest) ! 1 else [])
          |\<in>| fmdom (bindings st))"
proof -
  obtain zs where z: "py_strip (''bound'' @ rest) = ''bound'' @ zs"
    using py_strip_prefix [of "''bound''" rest] by (auto simp: py_isspace_def)
  have s: "py_split (''bound'' @ zs) = py_split (''bound'' @ rest)"
    using py_split_strip [of "''bound'' @ rest"] z by simp
  show ?thesis
    unfolding evaluate_condition_def z Let_def s by (simp add: startswith_def)
qed

lemma unbound_prefix:
  "evaluate_condition (''unbound'' @ rest) st =
     Inr ((if 1 < length (py_split (''unbound'' @ rest)) then py_split (''unbound'' @ rest) ! 1
           else []) |\<notin>| fmdom (bindings st))"
proof -
  obtain zs where z: "py_strip (''unbound'' @ rest) = ''unbound'' @ zs"
    using py_strip_prefix [of "''unbound''" rest] by (auto simp: py_isspace_def)
  have s: "py_split (''unbound'' @ zs) = py_split (''unbound'' @ rest)"
    using py_split_strip [of "''unbound'' @ rest"] z by simp
  show ?thesis
    unfolding evaluate_condition_def z Let_def s by (simp add: startswith_def)
qed

lemma condition_error_iff:
  "evaluate_condition cond st = Inl ConditionError \<longleftrightarrow>
     (if startswith (py_strip cond) ''depth''
      then \<not> (length (py_split (py_strip cond)) = 3
              \<and> py_split (py_strip cond) ! 1 \<in> {''<'', ''>'', ''==''}
              \<and> py_int (py_split (py_strip cond) ! 2) \<noteq> None)
      else \<not> startswith (py_strip cond) ''bound'' \<and> \<not> startswith (py_strip cond) ''unbound'')"
  by (auto simp: evaluate_condition_def Let_def split: option.splits)

lemma only_condition_error: "evaluate_condition cond st = Inl e \<Longrightarrow> e = ConditionError"
  by (auto simp: evaluate_condition_def Let_def split: option.splits if_splits)

text \<open>
  Claim C8, as stated, fails: a bare \<open>bound\<close> or \<open>unbound\<close> is not rejected, the key
  defaults to the empty string; and a word that merely begins with \<open>bound\<close> or \<open>depth\<close>
  is taken for the form itself (the test is \<open>startswith\<close>), an integer with a sign included.
\<close>

theorem evaluate_condition_bare_bound_counterexample:
  "evaluate_condition ''bound'' reset = Inr False
   \<and> evaluate_condition ''unbound'' reset = Inr True
   \<and> evaluate_condition ''boundary k'' (reset\<lparr>bindings := fmupd ''k'' ''v'' fmempty\<rparr>) = Inr True
   \<and> evaluate_condition ''depthcharge < -1'' reset = Inr False"
  by code_simp

text \<open>
  Claim C8, amended. The evaluator returns the boolean of the three recognised forms
  (\<open>depth OP N\<close> with \<open>OP\<close> one of \<open><\<close>, \<open>>\<close>, \<open>==\<close> and \<open>N\<close> a decimal natural number;
  \<open>bound K\<close>; \<open>unbound K\<close>, for a non-empty key without whitespace). It returns a boolean as
  well for every condition that begins with \<open>bound\<close> or \<open>unbound\<close>, whatever follows: the
  key is the second whitespace-separated word, or the empty string when there is none. It
  fails, and then always with \<open>ConditionError\<close>, exactly when the trimmed condition begins
  with none of \<open>depth\<close>, \<open>bound\<close>, \<open>unbound\<close>, or begins with \<open>depth\<close> and is not made of
  three words of which the second is one of the three operators and the third is accepted
  by \<open>int\<close>.
\<close>

theorem evaluate_condition_accepted_forms:
  "(operator \<in> {''<'', ''>'', ''==''} \<longrightarrow>
      evaluate_condition (''depth '' @ operator @ '' '' @ str_nat n) st =
        Inr (if operator = ''<'' then int (length (stack st)) < int n
             else if operator = ''>'' then int (length (stack st)) > int n
             else int (length (stack st)) = int n))
   \<and> (K \<noteq> [] \<and> (\<forall>c \<in> set K. \<not> py_isspace c) \<longrightarrow>
        evaluate_condition (''bound '' @ K) st = Inr (K |\<in>| fmdom (bindings st))
        \<and> evaluate_condition (''unbound '' @ K) st = Inr (K |\<notin>| fmdom (bindings st)))
   \<and> evaluate_condition (''bound'' @ rest) st =
        Inr ((if 1 < length (py_split (''bound'' @ rest)) then py_split (''bound'' @ rest) ! 1
              else []) |\<in>| fmdom (bindings st))
   \<and> evaluate_condition (''unbound'' @ rest) st =
        Inr ((if 1 < length (py_split (''unbound'' @ rest)) then py_split (''unbound'' @ rest) ! 1
              else []) |\<notin>| fmdom (bindings st))
   \<and> (evaluate_condition cond st = Inl ConditionError \<longleftrightarrow>
        (if startswith (py_strip cond) ''depth''
         then \<not> (length (py_split (py_strip cond)) = 3
                 \<and> py_split (py_strip cond) ! 1 \<in> {''<'', ''>'', ''==''}
                 \<and> py_int (py_split (py_strip cond) ! 2) \<noteq> None)
         else \<not> startswith (py_strip cond) ''bound''
              \<and> \<not> startswith (py_strip cond) ''unbound''))
   \<and> (\<forall>e. evaluate_condition cond st = Inl e \<longrightarrow> e = ConditionError)"
  using depth_form [of operator n st] bound_form [of K st] bound_prefix [of rest st]
    unbound_prefix [of rest st] condition_error_iff [of cond st] only_condition_error [of cond st]
  by blast

theorem evaluate_condition_accepted_forms_witness:
  "evaluate_condition ''depth < 5'' reset = Inr True
   \<and> evaluate_condition ''bound k'' reset = Inr False
   \<and> evaluate_condition ''unbound k'' reset = Inr True
   \<and> evaluate_condition ''bound'' reset = Inr False
   \<and> evaluate_condition ''unbound'' reset = Inr True
   \<and> evaluate_condition ''depth <'' reset = Inl ConditionError"
  using evaluate_condition_accepted_forms [of "''<''" 5 reset "''k''" "[]" "''depth <''"]
  by (simp add: str_nat.simps digit_char_def reset_def py_isspace_def py_split_def py_strip_def
        startswith_def)

section \<open>Sequencing of phases and operations\<close>

lemma saturate_loop_exhausted:
  "max_saturate_iterations cfg \<le> iteration \<Longrightarrow>
     saturate_loop cfg ops iteration st = ((None, st), iteration)"
  by (simp add: saturate_loop.simps)

lemma phase_loop_halted: "halted st \<Longrightarrow> phase_loop cfg ops st = (None, st)"
  by (cases ops) simp_all

lemma phase_loop_append:
  "phase_loop cfg (xs @ ys) st =
     (case phase_loop cfg xs st of
        (None, st') \<Rightarrow> phase_loop cfg ys st'
      | (Some e, st') \<Rightarrow> (Some e, st'))"
proof (induction xs arbitrary: st)
  case Nil
  show ?case by simp
next
  case (Cons x xs)
  show ?case
    by (auto simp: Cons phase_loop_halted split: prod.splits option.splits)
qed

lemma execute_phases_halted: "halted st \<Longrightarrow> execute_phases cfg phs st = (None, st)"
  by (cases phs) simp_all

lemma execute_phases_append:
  "execute_phases cfg (xs @ ys) st =
     (case execute_phases cfg xs st of
        (None, st') \<Rightarrow> execute_phases cfg ys st'
      | (Some e, st') \<Rightarrow> (Some e, st'))"
proof (induction xs arbitrary: st)
  case Nil
  show ?case by simp
next
  case (Cons x xs)
  show ?case
    by (auto simp: Cons execute_phases_halted Let_def split: prod.splits option.splits)
qed

section \<open>SATURATE with an iteration bound of zero\<close>

text \<open>
  Claim C10. With \<open>max_saturate_iterations = 0\<close> the \<open>while\<close> condition of \<open>op_saturate\<close>
  is false at once and the test after the loop raises \<open>CycleLimitError\<close>: the call leaves
  the machine as it found it, the block is never started (also when it is empty) and no
  snapshots are compared. The dispatch of \<open>execute_operation\<close> reaches \<open>op_saturate\<close> when
  the operation budget is not used up, and then only the operation counter has moved.
  Whenever a run of a program comes to a SATURATE in this way (the phases before it and the
  operations before it in its phase have returned normally), it ends there with status
  \<open>TERM_CYCLE_LIMIT\<close> and the state reached just before, the SATURATE counted as one operation.
\<close>

theorem saturate_zero_iterations:
  assumes zero: "max_saturate_iterations cfg = 0"
  shows "op_saturate cfg ops st = (Some CycleLimitError, st)
       \<and> saturate_runs cfg ops 0 st = 0
       \<and> (operation_counter st < max_operations cfg \<longrightarrow>
            execute_operation cfg (SATURATE ops) st =
              (Some CycleLimitError, st\<lparr>operation_counter := operation_counter st + 1\<rparr>))
       \<and> (execute_phases cfg before reset = (None, st0) \<and> \<not> halted st0
            \<and> phase_loop cfg earlier
                 (st0\<lparr>current_phase_name := Some nm, phase_counter := phase_counter st0 + 1\<rparr>)
               = (None, st1)
            \<and> \<not> halted st1 \<and> operation_counter st1 < max_operations cfg \<longrightarrow>
            execute cfg (Program (before @ Phase nm (earlier @ SATURATE ops # later) # after)) =
              Inr \<lparr>status = ''TERM_CYCLE_LIMIT'',
                   phases_executed = phase_counter st1,
                   operations_executed = operation_counter st1 + 1,
                   final_state =
                     \<lparr>fs_stack = stack st1, fs_bindings = bindings st1,
                      depth = int (length (stack st1)),
                      binding_count = int (fcard (fmdom (bindings st1)))\<rparr>,
                   result_trace = (if trace_enabled cfg then trace st1 else [])\<rparr>)"
proof -
  have sat: "op_saturate cfg ops s = (Some CycleLimitError, s)" for s
    using zero by (simp add: op_saturate.simps saturate_loop_exhausted)
  have runs: "saturate_runs cfg ops 0 st = 0"
    using zero by (simp add: saturate_runs.simps)
  have disp: "execute_operation cfg (SATURATE ops) s =
      (Some CycleLimitError, s\<lparr>operation_counter := operation_counter s + 1\<rparr>)"
    if "operation_counter s < max_operations cfg" for s
    using that by (simp add: execute_operation.simps sat)
  have run: "execute cfg (Program (before @ Phase nm (earlier @ SATURATE ops # later) # after)) =
      Inr \<lparr>status = ''TERM_CYCLE_LIMIT'',
           phases_executed = phase_counter st1,
           operations_executed = operation_counter st1 + 1,
           final_state =
             \<lparr>fs_stack = stack st1, fs_bindings = bindings st1,
              depth = int (length (stack st1)),
              binding_count = int (fcard (fmdom (bindings st1)))\<rparr>,
           result_trace = (if trace_enabled cfg then trace st1 else [])\<rparr>"
    if a: "execute_phases cfg before reset = (None, st0)" "\<not> halted st0"
      "phase_loop cfg earlier
         (st0\<lparr>current_phase_name := Some nm, phase_counter := phase_counter st0 + 1\<rparr>)
       = (None, st1)"
      "\<not> halted st1" "operation_counter st1 < max_operations cfg"
  proof -
    have "phase_loop cfg (earlier @ SATURATE ops # later)
            (st0\<lparr>current_phase_name := Some nm, phase_counter := phase_counter st0 + 1\<rparr>)
          = (Some CycleLimitError, st1\<lparr>operation_counter := operation_counter st1 + 1\<rparr>)"
      using a by (simp add: phase_loop_append disp)
    then have "execute_phases cfg (before @ Phase nm (earlier @ SATURATE ops # later) # after) reset
          = (Some CycleLimitError, st1\<lparr>operation_counter := operation_counter st1 + 1\<rparr>)"
      using a by (simp add: execute_phases_append execute_phase_def)
    then show ?thesis
      by (simp add: execute_def status_of_def)
  qed
  show ?thesis using sat runs disp run by blast
qed

theorem saturate_zero_iterations_witness:
  "execute (default_config\<lparr>max_saturate_iterations := 0\<rparr>)
     (Program [Phase ''A'' [PUSH (PStr ''a'')],
               Phase ''T'' [PUSH (PStr ''b''), SATURATE [], HALT]]) =
   Inr \<lparr>status = ''TERM_CYCLE_LIMIT'', phases_executed = 2, operations_executed = 3,
        final_state = \<lparr>fs_stack = [''a'', ''b''], fs_bindings = fmempty, depth = 2,
                        binding_count = 0\<rparr>,
        result_trace = []\<rparr>"
  using saturate_zero_iterations
    [of "default_config\<lparr>max_saturate_iterations := 0\<rparr>"
        "[]" reset "[Phase ''A'' [PUSH (PStr ''a'')]]"
        "reset\<lparr>stack := [''a''], phase_counter := 1, operation_counter := 1,
               current_phase_name := Some ''A''\<rparr>"
        "[PUSH (PStr ''b'')]" "''T''"
        "reset\<lparr>stack := [''a'', ''b''], phase_counter := 2, operation_counter := 2,
               current_phase_name := Some ''T''\<rparr>" "[HALT]" "[]"]
  by (simp add: default_config_def reset_def execute_phase_def execute_operation.simps
        op_push_def py_str_def fcard_fempty)

section \<open>The fixed-point loop of SATURATE\<close>

text \<open>
  Claim C7. With an iteration bound of at least 1, a block that returns normally and leaves
  the stack and the bindings as they were at the start of the first iteration is run
  exactly once: the two snapshots are equal, the loop is left with \<open>iteration = 0\<close> and
  \<open>op_saturate\<close> returns without raising. The empty block is such a block; running it
  executes no operation and changes nothing, so the SATURATE returns at once.
\<close>

theorem saturate_fixed_point_first_iteration:
  assumes "1 \<le> max_saturate_iterations cfg"
  shows "(execute_block cfg ops st = (None, st') \<and> stack st' = stack st
          \<and> bindings st' = bindings st \<longrightarrow>
            op_saturate cfg ops st = (None, st') \<and> saturate_runs cfg ops 0 st = 1)
       \<and> execute_block cfg [] st = (None, st)
       \<and> op_saturate cfg [] st = (None, st)
       \<and> saturate_runs cfg [] 0 st = 1"
  using assms
  by (auto simp: op_saturate.simps saturate_loop.simps saturate_runs.simps snapshot_state_def
        states_equal_def)

theorem saturate_fixed_point_first_iteration_witness:
  "op_saturate default_config [INVERT] reset = (None, reset\<lparr>operation_counter := 1\<rparr>)
   \<and> saturate_runs default_config [INVERT] 0 reset = 1
   \<and> op_saturate default_config [] reset = (None, reset)"
  using saturate_fixed_point_first_iteration
    [of default_config "[INVERT]" reset "reset\<lparr>operation_counter := 1\<rparr>"]
    saturate_fixed_point_first_iteration [of default_config "[]" reset reset]
  by (simp add: default_config_def reset_def execute_operation.simps op_invert_def)






section \<open>Budget safety\<close>

lemma fcard_fmdom_fmdrop: "fcard (fmdom (fmdrop k m)) \<le> fcard (fmdom m)"
  by (simp add: fcard_fminus1_le)

lemma budget_simple_ops:
  "within_budget cfg st \<Longrightarrow> within_budget cfg (snd (op_push cfg v st))"
  "within_budget cfg st \<Longrightarrow> within_budget cfg (snd (op_invert st))"
  "within_budget cfg st \<Longrightarrow> within_budget cfg (snd (op_bind cfg k v st))"
  "within_budget cfg st \<Longrightarrow> within_budget cfg (snd (op_release k st))"
  "within_budget cfg st \<Longrightarrow> within_budget cfg (snd (op_gate c st))"
  "within_budget cfg st \<Longrightarrow> within_budget cfg (snd (op_witness cfg st))"
  "within_budget cfg st \<Longrightarrow> within_budget cfg (snd (op_halt st))"
  using fcard_fmdom_fmdrop [of "py_str k" "bindings st"]
  by (auto simp: within_budget_def op_push_def op_invert_def op_bind_def op_release_def
        op_gate_def op_witness_def op_halt_def fcard_finsert_if
        split: pyvalue.splits sum.splits)

lemma budget_preserved:
  "within_budget cfg st \<Longrightarrow> within_budget cfg (snd (execute_operation cfg operation st))"
  "within_budget cfg st \<Longrightarrow> within_budget cfg (snd (execute_block cfg ops st))"
  "within_budget cfg st \<Longrightarrow> within_budget cfg (snd (fst (saturate_loop cfg ops iteration st)))"
  "within_budget cfg st \<Longrightarrow> within_budget cfg (snd (op_saturate cfg ops st))"
proof (induction cfg operation st and cfg ops st and cfg ops iteration st and cfg ops st
    rule: execute_operation_execute_block_saturate_loop_op_saturate.induct)
  case (1 cfg operation st)
  show ?case
  proof (cases "operation_counter st \<ge> max_operations cfg")
    case True
    with 1 show ?thesis by (simp add: execute_operation.simps)
  next
    case False
    let ?st1 = "st\<lparr>operation_counter := operation_counter st + 1\<rparr>"
    have b1: "within_budget cfg ?st1" using 1(2) False by (simp add: within_budget_def)
    show ?thesis
    proof (cases operation)
      case (SATURATE ops)
      with 1(1) [OF False refl SATURATE b1] False show ?thesis
        by (simp add: execute_operation.simps)
    qed (use False b1 budget_simple_ops in \<open>simp_all add: execute_operation.simps\<close>)
  qed
next
  case (2 cfg st)
  then show ?case by simp
next
  case (3 cfg operation rest st)
  obtain r s1 where e: "execute_operation cfg operation st = (r, s1)" by (metis surj_pair)
  have b1: "within_budget cfg s1" using 3(1) [OF 3(3)] e by simp
  show ?case
  proof (cases r)
    case None
    with 3(2) [OF e [symmetric] None b1] e show ?thesis by simp
  next
    case (Some x)
    with e b1 show ?thesis by simp
  qed
next
  case (4 cfg ops iteration st)
  show ?case
  proof (cases "iteration < max_saturate_iterations cfg")
    case False
    with 4 show ?thesis by (simp add: saturate_loop.simps)
  next
    case True
    obtain r s1 where e: "execute_block cfg ops st = (r, s1)" by (metis surj_pair)
    have b1: "within_budget cfg s1" using 4(1) [OF True refl 4(3)] e by simp
    show ?thesis
    proof (cases r)
      case (Some x)
      with True e b1 show ?thesis by (simp add: saturate_loop.simps)
    next
      case None
      show ?thesis
      proof (cases "states_equal (snapshot_state st) (snapshot_state s1)")
        case True
        with \<open>iteration < max_saturate_iterations cfg\<close> e None b1 show ?thesis
          by (simp add: saturate_loop.simps)
      next
        case False
        with 4(2) [OF True refl e [symmetric] None refl False b1] True e None show ?thesis
          by (simp add: saturate_loop.simps)
      qed
    qed
  qed
next
  case (5 cfg ops st)
  obtain r s1 it where e: "saturate_loop cfg ops 0 st = ((r, s1), it)" by (metis surj_pair)
  have "within_budget cfg s1" using 5(1) [OF 5(2)] e by simp
  with e show ?case by (cases r) (simp_all add: op_saturate.simps)
qed

lemma budget_phase_loop:
  "within_budget cfg st \<Longrightarrow> within_budget cfg (snd (phase_loop cfg ops st))"
proof (induction ops arbitrary: st)
  case Nil
  then show ?case by simp
next
  case (Cons operation rest)
  obtain r s1 where e: "execute_operation cfg operation st = (r, s1)" by (metis surj_pair)
  have "within_budget cfg s1" using budget_preserved(1) [OF Cons.prems, of operation] e by simp
  with Cons e show ?case by (cases r) auto
qed

lemma budget_execute_phases:
  "within_budget cfg st \<Longrightarrow> within_budget cfg (snd (execute_phases cfg phs st))"
proof (induction phs arbitrary: st)
  case Nil
  then show ?case by simp
next
  case (Cons ph rest)
  let ?st1 = "st\<lparr>current_phase_name := Some (name ph), phase_counter := phase_counter st + 1\<rparr>"
  obtain r s1 where e: "execute_phase cfg ph ?st1 = (r, s1)" by (metis surj_pair)
  have "within_budget cfg ?st1" using Cons.prems by (simp add: within_budget_def)
  then have "within_budget cfg s1"
    using budget_phase_loop [of cfg ?st1 "operations ph"] e by (simp add: execute_phase_def)
  with Cons e show ?case by (cases r) (auto simp: Let_def)
qed

text \<open>
  Claim C5, as stated for every configuration, fails where a limit is negative (the fields
  of \<open>VMConfig\<close> are integers and the command line takes any integer): the counters start
  at zero, so with \<open>max_operations = -1\<close> the first dispatch ends the run with status
  \<open>TERM_OP_LIMIT\<close> and \<open>operations_executed = 0\<close>, which is above the limit.
\<close>

theorem budget_counterexample:
  "execute (default_config\<lparr>max_operations := - 1\<rparr>) (Program [Phase ''T'' [HALT]]) =
     Inr \<lparr>status = ''TERM_OP_LIMIT'', phases_executed = 1, operations_executed = 0,
          final_state = \<lparr>fs_stack = [], fs_bindings = fmempty, depth = 0, binding_count = 0\<rparr>,
          result_trace = []\<rparr>
   \<and> \<not> (0::int) \<le> max_operations (default_config\<lparr>max_operations := - 1\<rparr>)"
  by code_simp

text \<open>
  Claim C5, amended. For every program and every configuration whose \<open>max_operations\<close>,
  \<open>max_stack_depth\<close> and \<open>max_bindings\<close> are not negative, a result of \<open>execute\<close>,
  whatever its status, has \<open>operations_executed \<le> max_operations\<close>, a stack of at most
  \<open>max_stack_depth\<close> elements and at most \<open>max_bindings\<close> bindings. Each guard comes
  before the write it protects: at a used-up operation budget \<open>execute_operation\<close>
  raises \<open>OperationLimitError\<close> and leaves the machine as it was, and so do \<open>op_push\<close> on
  a full stack and \<open>op_bind\<close> on full bindings.
\<close>

theorem budget_safety:
  assumes "0 \<le> max_operations cfg" "0 \<le> max_stack_depth cfg" "0 \<le> max_bindings cfg"
  shows "(execute cfg prog = Inr res \<longrightarrow>
            operations_executed res \<le> max_operations cfg
            \<and> int (length (fs_stack (final_state res))) \<le> max_stack_depth cfg
            \<and> int (fcard (fmdom (fs_bindings (final_state res)))) \<le> max_bindings cfg
            \<and> depth (final_state res) \<le> max_stack_depth cfg
            \<and> binding_count (final_state res) \<le> max_bindings cfg)
       \<and> (operation_counter st \<ge> max_operations cfg \<longrightarrow>
            execute_operation cfg operation st = (Some OperationLimitError, st))
       \<and> (int (length (stack st)) \<ge> max_stack_depth cfg \<longrightarrow>
            op_push cfg v st = (Some StackOverflowError, st))
       \<and> (int (fcard (fmdom (bindings st))) \<ge> max_bindings cfg \<longrightarrow>
            op_bind cfg k v st = (Some BindingsOverflowError, st))"
proof -
  have "within_budget cfg reset"
    using assms by (simp add: within_budget_def reset_def fcard_fempty)
  then have "within_budget cfg (snd (execute_phases cfg (phases prog) reset))"
    by (rule budget_execute_phases)
  then have run: "execute cfg prog = Inr res \<longrightarrow>
            operations_executed res \<le> max_operations cfg
            \<and> int (length (fs_stack (final_state res))) \<le> max_stack_depth cfg
            \<and> int (fcard (fmdom (fs_bindings (final_state res)))) \<le> max_bindings cfg
            \<and> depth (final_state res) \<le> max_stack_depth cfg
            \<and> binding_count (final_state res) \<le> max_bindings cfg"
    by (auto simp: execute_def within_budget_def split: prod.splits sum.splits)
  show ?thesis
    using run by (simp add: execute_operation.simps op_push_def op_bind_def)
qed

theorem budget_safety_witness:
  "execute (default_config\<lparr>max_stack_depth := 1\<rparr>)
     (Program [Phase ''T'' [PUSH (PStr ''a''), PUSH (PStr ''b'')]]) =
     Inr \<lparr>status = ''ERR_STACK_OVERFLOW'', phases_executed = 1, operations_executed = 2,
          final_state = \<lparr>fs_stack = [''a''], fs_bindings = fmempty, depth = 1,
                          binding_count = 0\<rparr>,
          result_trace = []\<rparr>
   \<and> (2::int) \<le> max_operations (default_config\<lparr>max_stack_depth := 1\<rparr>)
   \<and> int (length [''a'']) \<le> max_stack_depth (default_config\<lparr>max_stack_depth := 1\<rparr>)
   \<and> op_push (default_config\<lparr>max_stack_depth := 1\<rparr>) (PStr ''b'') (reset\<lparr>stack := [''a'']\<rparr>) =
       (Some StackOverflowError, reset\<lparr>stack := [''a'']\<rparr>)"
proof -
  have e: "execute (default_config\<lparr>max_stack_depth := 1\<rparr>)
     (Program [Phase ''T'' [PUSH (PStr ''a''), PUSH (PStr ''b'')]]) =
     Inr \<lparr>status = ''ERR_STACK_OVERFLOW'', phases_executed = 1, operations_executed = 2,
          final_state = \<lparr>fs_stack = [''a''], fs_bindings = fmempty, depth = 1,
                          binding_count = 0\<rparr>,
          result_trace = []\<rparr>"
    by code_simp
  show ?thesis
    using e budget_safety
      [of "default_config\<lparr>max_stack_depth := 1\<rparr>"
          "Program [Phase ''T'' [PUSH (PStr ''a''), PUSH (PStr ''b'')]]"
          "\<lparr>status = ''ERR_STACK_OVERFLOW'', phases_executed = 1, operations_executed = 2,
            final_state = \<lparr>fs_stack = [''a''], fs_bindings = fmempty, depth = 1,
                            binding_count = 0\<rparr>,
            result_trace = []\<rparr>"
          "reset\<lparr>stack := [''a'']\<rparr>" HALT "PStr ''b''" "PStr ''k''"]
    by (simp add: default_config_def reset_def)
qed

section \<open>Tracing transparency\<close>

lemma evaluate_condition_state:
  "stack st = stack st' \<Longrightarrow> bindings st = bindings st' \<Longrightarrow>
     evaluate_condition c st = evaluate_condition c st'"
  by (auto simp: evaluate_condition_def Let_def split: option.splits)

lemma trace_simple_ops:
  assumes "same_but_trace st st'"
  shows "same_outcome (op_push (cfg\<lparr>trace_enabled := a\<rparr>) v st)
           (op_push (cfg\<lparr>trace_enabled := b\<rparr>) v st')"
    and "same_outcome (op_invert st) (op_invert st')"
    and "same_outcome (op_bind (cfg\<lparr>trace_enabled := a\<rparr>) k v st)
           (op_bind (cfg\<lparr>trace_enabled := b\<rparr>) k v st')"
    and "same_outcome (op_release k st) (op_release k st')"
    and "same_outcome (op_gate c st) (op_gate c st')"
    and "same_outcome (op_witness (cfg\<lparr>trace_enabled := a\<rparr>) st)
           (op_witness (cfg\<lparr>trace_enabled := b\<rparr>) st')"
    and "same_outcome (op_halt st) (op_halt st')"
  using assms evaluate_condition_state [of st st']
  by (auto simp: same_outcome_def same_but_trace_def op_push_def op_invert_def op_bind_def
        op_release_def op_gate_def op_witness_def op_halt_def
        split: pyvalue.splits sum.splits)

lemma trace_transparent:
  "\<forall>st'. same_but_trace st st' \<longrightarrow>
     same_outcome (execute_operation cfg operation st)
       (execute_operation (cfg\<lparr>trace_enabled := b\<rparr>) operation st')"
  "\<forall>st'. same_but_trace st st' \<longrightarrow>
     same_outcome (execute_block cfg ops st) (execute_block (cfg\<lparr>trace_enabled := b\<rparr>) ops st')"
  "\<forall>st'. same_but_trace st st' \<longrightarrow>
     same_outcome (fst (saturate_loop cfg ops iteration st))
       (fst (saturate_loop (cfg\<lparr>trace_enabled := b\<rparr>) ops iteration st'))
     \<and> snd (saturate_loop cfg ops iteration st)
       = snd (saturate_loop (cfg\<lparr>trace_enabled := b\<rparr>) ops iteration st')"
  "\<forall>st'. same_but_trace st st' \<longrightarrow>
     same_outcome (op_saturate cfg ops st) (op_saturate (cfg\<lparr>trace_enabled := b\<rparr>) ops st')"
proof (induction cfg operation st and cfg ops st and cfg ops iteration st and cfg ops st
    rule: execute_operation_execute_block_saturate_loop_op_saturate.induct)
  case (1 cfg operation st)
  show ?case
  proof (intro allI impI)
    fix st' assume s: "same_but_trace st st'"
    let ?cfg' = "cfg\<lparr>trace_enabled := b\<rparr>"
    have c: "operation_counter st' = operation_counter st" using s by (simp add: same_but_trace_def)
    show "same_outcome (execute_operation cfg operation st) (execute_operation ?cfg' operation st')"
    proof (cases "operation_counter st \<ge> max_operations cfg")
      case True
      with s c show ?thesis by (simp add: execute_operation.simps same_outcome_def)
    next
      case False
      let ?st1 = "st\<lparr>operation_counter := operation_counter st + 1\<rparr>"
      let ?st1' = "st'\<lparr>operation_counter := operation_counter st' + 1\<rparr>"
      have s1: "same_but_trace ?st1 ?st1'" using s by (simp add: same_but_trace_def)
      have cfg: "cfg = cfg\<lparr>trace_enabled := trace_enabled cfg\<rparr>" by simp
      show ?thesis
      proof (cases operation)
        case (SATURATE ops)
        with 1 [OF False refl SATURATE, rule_format, OF s1] False c show ?thesis
          by (simp add: execute_operation.simps)
      next
        case (PUSH v)
        with trace_simple_ops(1) [OF s1, where cfg = cfg and a = "trace_enabled cfg" and b = b] False c show ?thesis
          by (simp add: execute_operation.simps)
      next
        case INVERT
        with trace_simple_ops(2) [OF s1] False c show ?thesis
          by (simp add: execute_operation.simps)
      next
        case (BIND k v)
        with trace_simple_ops(3) [OF s1, where cfg = cfg and a = "trace_enabled cfg" and b = b] False c show ?thesis
          by (simp add: execute_operation.simps)
      next
        case (RELEASE k)
        with trace_simple_ops(4) [OF s1] False c show ?thesis
          by (simp add: execute_operation.simps)
      next
        case (GATE g)
        with trace_simple_ops(5) [OF s1] False c show ?thesis
          by (simp add: execute_operation.simps)
      next
        case WITNESS
        with trace_simple_ops(6) [OF s1, where cfg = cfg and a = "trace_enabled cfg" and b = b] False c show ?thesis
          by (simp add: execute_operation.simps)
      next
        case HALT
        with trace_simple_ops(7) [OF s1] False c show ?thesis
          by (simp add: execute_operation.simps)
      qed
    qed
  qed
next
  case (2 cfg st)
  then show ?case by (simp add: same_outcome_def)
next
  case (3 cfg operation rest st)
  show ?case
  proof (intro allI impI)
    fix st' assume s: "same_but_trace st st'"
    let ?cfg' = "cfg\<lparr>trace_enabled := b\<rparr>"
    obtain r s1 where e: "execute_operation cfg operation st = (r, s1)" by (metis surj_pair)
    obtain r' s1' where e': "execute_operation ?cfg' operation st' = (r', s1')" by (metis surj_pair)
    have rel: "r' = r \<and> same_but_trace s1 s1'"
      using 3(1) [rule_format, OF s] e e' by (simp add: same_outcome_def)
    show "same_outcome (execute_block cfg (operation # rest) st)
            (execute_block ?cfg' (operation # rest) st')"
    proof (cases r)
      case None
      with 3(2) [OF e [symmetric] None, rule_format, of s1'] rel e e' show ?thesis by simp
    next
      case (Some x)
      with rel e e' show ?thesis by (simp add: same_outcome_def)
    qed
  qed
next
  case (4 cfg ops iteration st)
  show ?case
  proof (intro allI impI)
    fix st' assume s: "same_but_trace st st'"
    let ?cfg' = "cfg\<lparr>trace_enabled := b\<rparr>"
    show "same_outcome (fst (saturate_loop cfg ops iteration st))
            (fst (saturate_loop ?cfg' ops iteration st'))
          \<and> snd (saturate_loop cfg ops iteration st) = snd (saturate_loop ?cfg' ops iteration st')"
    proof (cases "iteration < max_saturate_iterations cfg")
      case False
      with s show ?thesis by (simp add: saturate_loop.simps same_outcome_def)
    next
      case True
      obtain r s1 where e: "execute_block cfg ops st = (r, s1)" by (metis surj_pair)
      obtain r' s1' where e': "execute_block ?cfg' ops st' = (r', s1')" by (metis surj_pair)
      have rel: "r' = r \<and> same_but_trace s1 s1'"
        using 4(1) [OF True refl, rule_format, OF s] e e' by (simp add: same_outcome_def)
      have snap: "snapshot_state st' = snapshot_state st" "snapshot_state s1' = snapshot_state s1"
        using s rel by (simp_all add: snapshot_state_def same_but_trace_def)
      show ?thesis
      proof (cases r)
        case (Some x)
        with True rel e e' show ?thesis by (simp add: saturate_loop.simps same_outcome_def)
      next
        case None
        show ?thesis
        proof (cases "states_equal (snapshot_state st) (snapshot_state s1)")
          case True
          with \<open>iteration < max_saturate_iterations cfg\<close> rel e e' None snap show ?thesis
            by (simp add: saturate_loop.simps same_outcome_def)
        next
          case False
          with 4(2) [OF True refl e [symmetric] None refl False, rule_format, of s1']
            True rel e e' None snap
          show ?thesis by (simp add: saturate_loop.simps)
        qed
      qed
    qed
  qed
next
  case (5 cfg ops st)
  show ?case
  proof (intro allI impI)
    fix st' assume s: "same_but_trace st st'"
    let ?cfg' = "cfg\<lparr>trace_enabled := b\<rparr>"
    obtain r s1 it where e: "saturate_loop cfg ops 0 st = ((r, s1), it)" by (metis surj_pair)
    obtain r' s1' it' where e': "saturate_loop ?cfg' ops 0 st' = ((r', s1'), it')"
      by (metis surj_pair)
    have "r' = r \<and> same_but_trace s1 s1' \<and> it' = it"
      using 5 [rule_format, OF s] e e' by (simp add: same_outcome_def)
    with e e' show "same_outcome (op_saturate cfg ops st) (op_saturate ?cfg' ops st')"
      by (cases r) (simp_all add: op_saturate.simps same_outcome_def)
  qed
qed

lemma trace_phase_loop:
  "same_but_trace st st' \<Longrightarrow>
     same_outcome (phase_loop cfg ops st) (phase_loop (cfg\<lparr>trace_enabled := b\<rparr>) ops st')"
proof (induction ops arbitrary: st st')
  case Nil
  then show ?case by (simp add: same_outcome_def)
next
  case (Cons operation rest)
  let ?cfg' = "cfg\<lparr>trace_enabled := b\<rparr>"
  have h: "halted st' = halted st" using Cons.prems by (simp add: same_but_trace_def)
  obtain r s1 where e: "execute_operation cfg operation st = (r, s1)" by (metis surj_pair)
  obtain r' s1' where e': "execute_operation ?cfg' operation st' = (r', s1')" by (metis surj_pair)
  have rel: "r' = r \<and> same_but_trace s1 s1'"
    using trace_transparent(1) [rule_format, OF Cons.prems, of cfg operation b] e e'
    by (simp add: same_outcome_def)
  show ?case
  proof (cases "halted st")
    case True
    with h Cons.prems show ?thesis by (simp add: same_outcome_def)
  next
    case False
    show ?thesis
    proof (cases r)
      case None
      with Cons.IH [of s1 s1'] rel e e' h False show ?thesis by simp
    next
      case (Some x)
      with rel e e' h False show ?thesis by (simp add: same_outcome_def)
    qed
  qed
qed

lemma trace_execute_phases:
  "same_but_trace st st' \<Longrightarrow>
     same_outcome (execute_phases cfg phs st) (execute_phases (cfg\<lparr>trace_enabled := b\<rparr>) phs st')"
proof (induction phs arbitrary: st st')
  case Nil
  then show ?case by (simp add: same_outcome_def)
next
  case (Cons ph rest)
  let ?cfg' = "cfg\<lparr>trace_enabled := b\<rparr>"
  let ?st1 = "st\<lparr>current_phase_name := Some (name ph), phase_counter := phase_counter st + 1\<rparr>"
  let ?st1' = "st'\<lparr>current_phase_name := Some (name ph), phase_counter := phase_counter st' + 1\<rparr>"
  have h: "halted st' = halted st" using Cons.prems by (simp add: same_but_trace_def)
  have s1: "same_but_trace ?st1 ?st1'" using Cons.prems by (simp add: same_but_trace_def)
  obtain r s2 where e: "execute_phase cfg ph ?st1 = (r, s2)" by (metis surj_pair)
  obtain r' s2' where e': "execute_phase ?cfg' ph ?st1' = (r', s2')" by (metis surj_pair)
  have rel: "r' = r \<and> same_but_trace s2 s2'"
    using trace_phase_loop [OF s1, of cfg "operations ph" b] e e'
    by (simp add: same_outcome_def execute_phase_def)
  show ?case
  proof (cases "halted st")
    case True
    with h Cons.prems show ?thesis by (simp add: same_outcome_def)
  next
    case False
    show ?thesis
    proof (cases r)
      case None
      with Cons.IH [of s2 s2'] rel e e' h False show ?thesis by (simp add: Let_def)
    next
      case (Some x)
      with rel e e' h False show ?thesis by (simp add: same_outcome_def Let_def)
    qed
  qed
qed

text \<open>
  Claim C9. Two executions of a program under configurations that differ in
  \<open>trace_enabled\<close> only end alike: either the same exception leaves \<open>execute\<close> in both, or
  both return a result, with the same \<open>status\<close>, \<open>final_state\<close>, \<open>phases_executed\<close> and
  \<open>operations_executed\<close>. The flag is read by \<open>op_witness\<close>, which appends a checkpoint to
  the trace when it is set and does nothing when it is not, and by \<open>execute\<close>, which
  reports an empty trace when it is not set.
\<close>

theorem tracing_transparency:
  "map_sum id (\<lambda>res. (status res, final_state res, phases_executed res, operations_executed res))
     (execute (cfg\<lparr>trace_enabled := a\<rparr>) prog)
   = map_sum id (\<lambda>res. (status res, final_state res, phases_executed res, operations_executed res))
     (execute (cfg\<lparr>trace_enabled := b\<rparr>) prog)
   \<and> (\<forall>res. execute (cfg\<lparr>trace_enabled := False\<rparr>) prog = Inr res \<longrightarrow> result_trace res = [])
   \<and> op_witness (cfg\<lparr>trace_enabled := False\<rparr>) st = (None, st)
   \<and> op_witness (cfg\<lparr>trace_enabled := True\<rparr>) st =
       (None, st\<lparr>trace := trace st @
          [\<lparr>cp_phase = current_phase_name st, cp_operation = operation_counter st,
            cp_stack = stack st, cp_bindings = bindings st\<rparr>]\<rparr>)"
proof -
  let ?a = "cfg\<lparr>trace_enabled := a\<rparr>" and ?b = "cfg\<lparr>trace_enabled := b\<rparr>"
  obtain r s where e: "execute_phases ?a (phases prog) reset = (r, s)" by (metis surj_pair)
  obtain r' s' where e': "execute_phases ?b (phases prog) reset = (r', s')" by (metis surj_pair)
  have "same_but_trace reset reset" by (simp add: same_but_trace_def)
  from trace_execute_phases [OF this, of ?a "phases prog" b]
  have rel: "r' = r \<and> same_but_trace s s'" using e e' by (simp add: same_outcome_def)
  then have st: "status_of r' s' = status_of r s"
    by (simp add: status_of_def same_but_trace_def)
  have first: "map_sum id (\<lambda>res. (status res, final_state res, phases_executed res, operations_executed res))
     (execute ?a prog)
   = map_sum id (\<lambda>res. (status res, final_state res, phases_executed res, operations_executed res))
     (execute ?b prog)"
    using rel st e e' by (cases "status_of r s") (simp_all add: execute_def same_but_trace_def)
  have second: "\<forall>res. execute (cfg\<lparr>trace_enabled := False\<rparr>) prog = Inr res \<longrightarrow> result_trace res = []"
    by (auto simp: execute_def split: prod.splits sum.splits)
  show ?thesis
    using first second by (simp add: op_witness_def)
qed

theorem tracing_transparency_witness:
  "execute (default_config\<lparr>trace_enabled := False\<rparr>)
     (Program [Phase ''T'' [PUSH (PStr ''a''), WITNESS, HALT]]) =
     Inr \<lparr>status = ''HALTED'', phases_executed = 1, operations_executed = 3,
          final_state = \<lparr>fs_stack = [''a''], fs_bindings = fmempty, depth = 1,
                          binding_count = 0\<rparr>,
          result_trace = []\<rparr>
   \<and> map_sum id (\<lambda>res. (status res, final_state res, phases_executed res, operations_executed res))
       (execute (default_config\<lparr>trace_enabled := True\<rparr>)
          (Program [Phase ''T'' [PUSH (PStr ''a''), WITNESS, HALT]])) =
     Inr (''HALTED'', \<lparr>fs_stack = [''a''], fs_bindings = fmempty, depth = 1, binding_count = 0\<rparr>,
          1, 3)"
proof -
  have e: "execute (default_config\<lparr>trace_enabled := False\<rparr>)
     (Program [Phase ''T'' [PUSH (PStr ''a''), WITNESS, HALT]]) =
     Inr \<lparr>status = ''HALTED'', phases_executed = 1, operations_executed = 3,
          final_state = \<lparr>fs_stack = [''a''], fs_bindings = fmempty, depth = 1,
                          binding_count = 0\<rparr>,
          result_trace = []\<rparr>"
    by code_simp
  show ?thesis
    using e tracing_transparency
      [where cfg = default_config and a = True and b = False and st = reset
         and prog = "Program [Phase ''T'' [PUSH (PStr ''a''), WITNESS, HALT]]"]
    by simp
qed

end
